theory Spec2Isabelle
  imports Complex_Main
begin

section \<open>Python values used by the notebook\<close>

text \<open>
  The notebook \<^verbatim>\<open>364_final_proj_code.ipynb\<close> is Python. Its integers are unbounded
  (\<^typ>\<open>int\<close>), its exceptions become values of a sum type (\<open>Inl\<close> carries the
  exception), and its dictionaries keep their keys in insertion order, so a dictionary
  is an association list with one pair per key. A text is the list of its code points,
  each of them below 256; on these, \<^verbatim>\<open>str.lower\<close> and the class \<^verbatim>\<open>\w\<close> of the
  module \<^verbatim>\<open>re\<close> are the two tables below.
\<close>

datatype error = KeyError | IndexError | ZeroDivisionError | RuntimeError

type_synonym ('k, 'v) dict = "('k \<times> 'v) list"

definition dict_contains :: "('k, 'v) dict \<Rightarrow> 'k \<Rightarrow> bool" where
  \<comment> \<open>\<^verbatim>\<open>k in d\<close>\<close>
  "dict_contains d k = (k \<in> set (map fst d))"

definition dict_get :: "('k, 'v) dict \<Rightarrow> 'k \<Rightarrow> 'v \<Rightarrow> 'v" where
  \<comment> \<open>\<^verbatim>\<open>d.get(k, default)\<close>\<close>
  "dict_get d k dflt = (case map_of d k of None \<Rightarrow> dflt | Some v \<Rightarrow> v)"

definition dict_item :: "('k, 'v) dict \<Rightarrow> 'k \<Rightarrow> error + 'v" where
  \<comment> \<open>\<^verbatim>\<open>d[k]\<close>, which raises KeyError on a missing key\<close>
  "dict_item d k = (case map_of d k of None \<Rightarrow> Inl KeyError | Some v \<Rightarrow> Inr v)"

fun dict_set :: "('k, 'v) dict \<Rightarrow> 'k \<Rightarrow> 'v \<Rightarrow> ('k, 'v) dict" where
  \<comment> \<open>\<^verbatim>\<open>d[k] = v\<close>: an existing key keeps its position, a new key goes last\<close>
  "dict_set [] k v = [(k, v)]"
| "dict_set ((k', v') # d) k v =
     (if k' = k then (k, v) # d else (k', v') # dict_set d k v)"

definition index :: "'a list \<Rightarrow> int \<Rightarrow> error + 'a" where
  \<comment> \<open>\<^verbatim>\<open>xs[i]\<close> (and \<^verbatim>\<open>Series.iloc[i]\<close>): a negative index counts from the end\<close>
  "index xs i =
     (if 0 \<le> i \<and> i < int (length xs) then Inr (xs ! nat i)
      else if - int (length xs) \<le> i \<and> i < 0 then Inr (xs ! nat (int (length xs) + i))
      else Inl IndexError)"

definition slice_to :: "'a list \<Rightarrow> int \<Rightarrow> 'a list" where
  \<comment> \<open>\<^verbatim>\<open>xs[:k]\<close>: a negative bound counts from the end\<close>
  "slice_to xs k = (if k < 0 then take (nat (int (length xs) + k)) xs else take (nat k) xs)"

section \<open>Tokenizer\<close>

definition is_word_char :: "char \<Rightarrow> bool" where
  \<comment> \<open>the class \<^verbatim>\<open>\w\<close> on code points below 256\<close>
  "is_word_char c =
     (let n = (of_char c :: nat)
      in (48 \<le> n \<and> n \<le> 57) \<or> (65 \<le> n \<and> n \<le> 90) \<or> n = 95 \<or> (97 \<le> n \<and> n \<le> 122) \<or>
         n = 170 \<or> (178 \<le> n \<and> n \<le> 179) \<or> n = 181 \<or> (185 \<le> n \<and> n \<le> 186) \<or>
         (188 \<le> n \<and> n \<le> 190) \<or> (192 \<le> n \<and> n \<le> 214) \<or> (216 \<le> n \<and> n \<le> 246) \<or>
         248 \<le> n)"

definition lower_char :: "char \<Rightarrow> char" where
  "lower_char c =
     (let n = (of_char c :: nat)
      in if (65 \<le> n \<and> n \<le> 90) \<or> (192 \<le> n \<and> n \<le> 214) \<or> (216 \<le> n \<and> n \<le> 222)
         then char_of (n + 32) else c)"

definition lower :: "string \<Rightarrow> string" where
  \<comment> \<open>\<^verbatim>\<open>text.lower()\<close>\<close>
  "lower text = map lower_char text"

fun findall_word :: "string \<Rightarrow> string \<Rightarrow> string list" where
  \<comment> \<open>\<^verbatim>\<open>re.findall(r'\w+', s)\<close>: the maximal runs of word characters, left to right;
      the first argument is the run being read\<close>
  "findall_word run [] = (if run = [] then [] else [run])"
| "findall_word run (c # cs) =
     (if is_word_char c then findall_word (run @ [c]) cs
      else (if run = [] then [] else [run]) @ findall_word [] cs)"

definition simple_tokenizer :: "string \<Rightarrow> string list" where
  "simple_tokenizer text = findall_word [] (lower text)"

section \<open>Vocabulary builder\<close>

fun count_tokens :: "(string, int) dict \<Rightarrow> string list \<Rightarrow> (string, int) dict" where
  \<comment> \<open>\<^verbatim>\<open>for token in tokens: word_counts[token] = word_counts.get(token, 0) + 1\<close>\<close>
  "count_tokens word_counts [] = word_counts"
| "count_tokens word_counts (token # tokens) =
     count_tokens (dict_set word_counts token (dict_get word_counts token 0 + 1)) tokens"

fun count_texts :: "(string, int) dict \<Rightarrow> string list \<Rightarrow> (string, int) dict" where
  \<comment> \<open>\<^verbatim>\<open>for text in texts: tokens = simple_tokenizer(text); ...\<close>\<close>
  "count_texts word_counts [] = word_counts"
| "count_texts word_counts (text # texts) =
     count_texts (count_tokens word_counts (simple_tokenizer text)) texts"

fun admit_tokens :: "int \<Rightarrow> (string, int) dict \<Rightarrow> (string \<times> int) list \<Rightarrow> (string, int) dict" where
  \<comment> \<open>\<^verbatim>\<open>for token, count in word_counts.items(): if count >= min_freq and token not in vocab:
      vocab[token] = len(vocab)\<close>\<close>
  "admit_tokens min_freq vocab [] = vocab"
| "admit_tokens min_freq vocab ((token, count) # items) =
     admit_tokens min_freq
       (if count \<ge> min_freq \<and> \<not> dict_contains vocab token
        then dict_set vocab token (int (length vocab)) else vocab)
       items"

definition build_vocab :: "string list \<Rightarrow> int \<Rightarrow> (string, int) dict" where
  "build_vocab texts min_freq =
     admit_tokens min_freq [(''<pad>'', 0), (''<unk>'', 1)] (count_texts [] texts)"

definition docstring_texts :: "string list" where
  \<comment> \<open>the collection in the docstring of \<^verbatim>\<open>build_vocab\<close>\<close>
  "docstring_texts = [''Hello world'', ''AI is amazing'', ''AI for the future'']"

text \<open>
  What the specification speaks of: the tokens of the whole collection, the distinct ones
  in the order of their first occurrence, the count of each, the tokens that reach the
  threshold, and a numbering with consecutive indices.
\<close>

definition corpus_tokens :: "string list \<Rightarrow> string list" where
  "corpus_tokens texts = concat (map simple_tokenizer texts)"

fun first_seen :: "'a list \<Rightarrow> 'a list" where
  "first_seen [] = []"
| "first_seen (x # xs) = x # removeAll x (first_seen xs)"

definition occurrences :: "string list \<Rightarrow> string \<Rightarrow> int" where
  "occurrences texts token = int (count_list (corpus_tokens texts) token)"

definition admitted :: "string list \<Rightarrow> int \<Rightarrow> string list" where
  "admitted texts min_freq =
     filter (\<lambda>token. min_freq \<le> occurrences texts token) (first_seen (corpus_tokens texts))"

fun number_from :: "nat \<Rightarrow> 'a list \<Rightarrow> ('a \<times> int) list" where
  "number_from n [] = []"
| "number_from n (x # xs) = (x, int n) # number_from (Suc n) xs"

definition counted :: "string list \<Rightarrow> (string, int) dict" where
  \<comment> \<open>the counts accumulated after reading the tokens \<open>seen\<close>\<close>
  "counted seen = map (\<lambda>token. (token, int (count_list seen token))) (first_seen seen)"

section \<open>Encoder\<close>

fun sequence_of :: "(string, int) dict \<Rightarrow> string list \<Rightarrow> error + int list" where
  \<comment> \<open>\<^verbatim>\<open>[vocab.get(token, vocab["<unk>"]) for token in tokens]\<close>: the default
      \<^verbatim>\<open>vocab["<unk>"]\<close> is looked up for every token, also for a known one\<close>
  "sequence_of vocab [] = Inr []"
| "sequence_of vocab (token # tokens) =
     (case dict_item vocab ''<unk>'' of
        Inl e \<Rightarrow> Inl e
      | Inr unk \<Rightarrow>
          (case sequence_of vocab tokens of
             Inl e \<Rightarrow> Inl e
           | Inr rest \<Rightarrow> Inr (dict_get vocab token unk # rest)))"

definition text_to_sequence :: "string \<Rightarrow> (string, int) dict \<Rightarrow> error + int list" where
  "text_to_sequence text vocab = sequence_of vocab (simple_tokenizer text)"

definition pad_sequence :: "int list \<Rightarrow> int \<Rightarrow> int list" where
  "pad_sequence sequence max_length =
     (if int (length sequence) < max_length
      then sequence @ replicate (nat (max_length - int (length sequence))) 0
      else slice_to sequence max_length)"

definition encode :: "string \<Rightarrow> (string, int) dict \<Rightarrow> int \<Rightarrow> error + int list" where
  \<comment> \<open>\<^verbatim>\<open>text_to_sequence\<close> followed by \<^verbatim>\<open>pad_sequence\<close>, as \<^verbatim>\<open>__getitem__\<close> chains them\<close>
  "encode text vocab max_len =
     (case text_to_sequence text vocab of
        Inl e \<Rightarrow> Inl e
      | Inr sequence \<Rightarrow> Inr (pad_sequence sequence max_len))"

definition example_vocab :: "(string, int) dict" where
  "example_vocab = [(''<pad>'', 0), (''<unk>'', 1), (''hello'', 2), (''world'', 3)]"

definition encoded_sequence :: "(string, int) dict \<Rightarrow> int \<Rightarrow> string list \<Rightarrow> int list" where
  \<comment> \<open>the Encoded Sequence of the specification: the index of each token, 1 for a token
      the vocabulary lacks, cut to the first \<open>n\<close> entries if longer, else padded on the
      right with 0 up to \<open>n\<close> entries\<close>
  "encoded_sequence voc n tokens =
     (let ids = map (\<lambda>token. case map_of voc token of None \<Rightarrow> 1 | Some i \<Rightarrow> i) tokens
      in if n < int (length ids) then take (nat n) ids
         else ids @ replicate (nat n - length ids) 0)"

section \<open>Dataset adapter\<close>

text \<open>
  A tensor of dtype \<^verbatim>\<open>long\<close> holds 64-bit signed integers and is modelled by the integers
  it holds. \<^verbatim>\<open>torch.tensor(..., dtype=torch.long)\<close> is a PyTorch primitive: it keeps the
  Python integers it is given and raises RuntimeError for one that does not fit.
\<close>

definition is_int64 :: "int \<Rightarrow> bool" where
  "is_int64 x = (- (2 ^ 63) \<le> x \<and> x < 2 ^ 63)"

definition tensor_long :: "int list \<Rightarrow> error + int list" where
  \<comment> \<open>\<^verbatim>\<open>torch.tensor(xs, dtype=torch.long)\<close> for a list of integers\<close>
  "tensor_long xs = (if list_all is_int64 xs then Inr xs else Inl RuntimeError)"

definition scalar_long :: "int \<Rightarrow> error + int" where
  \<comment> \<open>\<^verbatim>\<open>torch.tensor(x, dtype=torch.long)\<close> for one integer\<close>
  "scalar_long x = (if is_int64 x then Inr x else Inl RuntimeError)"

record TweetDataset =
  texts :: "string list"
  labels :: "int list"
  vocab :: "(string, int) dict"
  max_len :: int

definition len_TweetDataset :: "TweetDataset \<Rightarrow> int" where
  \<comment> \<open>\<^verbatim>\<open>__len__\<close>\<close>
  "len_TweetDataset self = int (length (texts self))"

definition getitem :: "TweetDataset \<Rightarrow> int \<Rightarrow> error + (int list \<times> int)" where
  \<comment> \<open>\<^verbatim>\<open>__getitem__\<close>\<close>
  "getitem self idx =
     (case index (texts self) idx of
        Inl e \<Rightarrow> Inl e
      | Inr text_item \<Rightarrow>
          (case index (labels self) idx of
             Inl e \<Rightarrow> Inl e
           | Inr label_item \<Rightarrow>
               (case text_to_sequence text_item (vocab self) of
                  Inl e \<Rightarrow> Inl e
                | Inr sequence \<Rightarrow>
                    (case tensor_long (pad_sequence sequence (max_len self)) of
                       Inl e \<Rightarrow> Inl e
                     | Inr input_ids \<Rightarrow>
                         (case scalar_long label_item of
                            Inl e \<Rightarrow> Inl e
                          | Inr label \<Rightarrow> Inr (input_ids, label))))))"

definition example_dataset :: TweetDataset where
  "example_dataset =
     \<lparr> texts = [''Hello Bob World'', ''world''], labels = [1, 0],
       vocab = example_vocab, max_len = 4 \<rparr>"

definition docstring_dataset :: TweetDataset where
  \<comment> \<open>one tweet, encoded with the vocabulary of the docstring of \<^verbatim>\<open>build_vocab\<close>\<close>
  "docstring_dataset =
     \<lparr> texts = [''AI is the future, Bob''], labels = [1],
       vocab = build_vocab docstring_texts 1, max_len = 6 \<rparr>"

section \<open>Python floats\<close>

text \<open>
  A loss value is a Python float. \<^verbatim>\<open>train_model\<close> uses three things of float arithmetic:
  the literal \<^verbatim>\<open>0.0\<close>, the sum of two floats and the quotient of a float by the integer
  \<^verbatim>\<open>len(loader)\<close>. They enter as a record of operations on a type \<open>'f\<close> of floats, so that
  what is proved of the loop holds for whatever these operations compute. \<open>float_div\<close> is
  the quotient by an integer other than 0; by 0, Python raises before it divides.
\<close>

record 'f float_arith =
  float_zero :: 'f
  float_add :: "'f \<Rightarrow> 'f \<Rightarrow> 'f"
  float_div :: "'f \<Rightarrow> nat \<Rightarrow> 'f"

text \<open>
  The floats of CPython are IEEE 754 binary64 numbers, and each operation returns the exact
  result rounded to the nearest such number, to the one with an even significand on a
  tie. A double is modelled by its value: not a number, an infinity or a rational; the two
  zeros, equal in Python, are one value.
\<close>

datatype double = NaN | PInf | NInf | Fin rat

function bit_length :: "int \<Rightarrow> int" where
  \<comment> \<open>the number of binary digits of a positive integer\<close>
  "bit_length n = (if n \<le> 0 then 0 else 1 + bit_length (n div 2))"
  by auto
termination
  by (relation "measure nat") auto

declare bit_length.simps [simp del]

definition pow2 :: "int \<Rightarrow> rat" where
  "pow2 k = (if 0 \<le> k then 2 ^ nat k else 1 / 2 ^ nat (- k))"

definition floor_log2 :: "rat \<Rightarrow> int" where
  \<comment> \<open>for \<open>a > 0\<close>, the \<open>e\<close> with \<open>2 ^ e \<le> a < 2 ^ (e + 1)\<close>: with \<open>a = p / d\<close> it is the
      difference \<open>k\<close> of the bit lengths of \<open>p\<close> and \<open>d\<close>, or \<open>k - 1\<close>\<close>
  "floor_log2 a =
     (case quotient_of a of
        (p, d) \<Rightarrow>
          (let k = bit_length p - bit_length d
           in if pow2 k \<le> a then k else k - 1))"

definition round_half_even :: "rat \<Rightarrow> int" where
  "round_half_even x =
     (let f = \<lfloor>x\<rfloor>; r = x - of_int f
      in if r < 1 / 2 then f else if 1 / 2 < r then f + 1 else if even f then f else f + 1)"

definition round_double :: "rat \<Rightarrow> double" where
  \<comment> \<open>the nearest double: 53 significant bits, the least exponent \<open>-1022\<close> (below it the
      spacing stays \<open>2 ^ -1074\<close>), and an infinity once the rounded value reaches
      \<open>2 ^ 1024\<close>\<close>
  "round_double q =
     (if q = 0 then Fin 0
      else let a = \<bar>q\<bar>;
               e = max (floor_log2 a) (- 1022);
               ulp = pow2 (e - 52);
               r = of_int (round_half_even (a / ulp)) * ulp
           in if 1024 \<le> floor_log2 r then (if 0 < q then PInf else NInf)
              else Fin (if 0 < q then r else - r))"

fun double_add :: "double \<Rightarrow> double \<Rightarrow> double" where
  \<comment> \<open>\<^verbatim>\<open>x + y\<close>\<close>
  "double_add (Fin x) (Fin y) = round_double (x + y)"
| "double_add NaN y = NaN"
| "double_add x NaN = NaN"
| "double_add PInf NInf = NaN"
| "double_add NInf PInf = NaN"
| "double_add PInf y = PInf"
| "double_add x PInf = PInf"
| "double_add NInf y = NInf"
| "double_add x NInf = NInf"

definition double_div_nat :: "double \<Rightarrow> nat \<Rightarrow> double" where
  \<comment> \<open>\<^verbatim>\<open>x / n\<close> for an integer \<open>n\<close> with \<open>0 < n < 2 ^ 63\<close>, as the length of a collection
      is: \<open>n\<close> is converted to a double, which is finite and positive, and divides.
      For \<open>n = 0\<close>, which \<open>truediv\<close> refuses before it divides, and for an \<open>n\<close> too large
      to convert, Python raises and the value here is \<open>NaN\<close>\<close>
  "double_div_nat x n =
     (if n = 0 then NaN
      else case round_double (of_nat n) of
             Fin y \<Rightarrow> (case x of Fin a \<Rightarrow> round_double (a / y) | _ \<Rightarrow> x)
           | _ \<Rightarrow> NaN)"

definition double_arith :: "double float_arith" where
  "double_arith =
     \<lparr> float_zero = Fin 0, float_add = double_add, float_div = double_div_nat \<rparr>"

section \<open>Training loop\<close>

text \<open>
  The model, the criterion and the optimizer are PyTorch objects. \<^verbatim>\<open>train_model\<close> only
  drives them, so they enter as the four operations of a \<open>trainer\<close> on a state \<open>'s\<close>
  (parameters, optimizer moments, mode flag, random stream): the two mode switches, the
  body of the training loop for one batch (lines 245 to 250: it returns \<^verbatim>\<open>loss.item()\<close>
  and the state after \<^verbatim>\<open>optimizer.step()\<close>) and the body of the validation loop for one
  batch (lines 260 to 262). A batch source is the list of the batches one pass streams, and
  \<^verbatim>\<open>len\<close> of it is their number; a batch may stand for its position in the pass, the
  state deciding which samples it holds, which covers a source that reshuffles. The two
  \<^verbatim>\<open>print\<close> calls are left out.
\<close>

record ('s, 'b, 'f) trainer =
  train_mode :: "'s \<Rightarrow> 's"
  eval_mode :: "'s \<Rightarrow> 's"
  train_batch :: "'b \<Rightarrow> 's \<Rightarrow> 'f \<times> 's"
  val_batch :: "'b \<Rightarrow> 's \<Rightarrow> 'f \<times> 's"

fun run_pass ::
  "'f float_arith \<Rightarrow> ('b \<Rightarrow> 's \<Rightarrow> 'f \<times> 's) \<Rightarrow> 'b list \<Rightarrow> 'f \<Rightarrow> 's \<Rightarrow> 'f \<times> 's" where
  \<comment> \<open>\<^verbatim>\<open>for input_ids, labels in loader: ...; loss_sum += loss.item()\<close>\<close>
  "run_pass A step [] loss_sum s = (loss_sum, s)"
| "run_pass A step (batch # batches) loss_sum s =
     (case step batch s of
        (loss, s') \<Rightarrow> run_pass A step batches (float_add A loss_sum loss) s')"

definition truediv :: "'f float_arith \<Rightarrow> 'f \<Rightarrow> nat \<Rightarrow> error + 'f" where
  \<comment> \<open>\<^verbatim>\<open>loss_sum / len(loader)\<close>: a float divided by the integer 0 raises\<close>
  "truediv A loss_sum n =
     (if n = 0 then Inl ZeroDivisionError else Inr (float_div A loss_sum n))"

fun epoch_loop ::
  "'f float_arith \<Rightarrow> ('s, 'b, 'f) trainer \<Rightarrow> 'b list \<Rightarrow> 'b list \<Rightarrow> nat \<Rightarrow> 'f list \<Rightarrow> 'f list \<Rightarrow> 's
     \<Rightarrow> error + (('f list \<times> 'f list) \<times> 's)" where
  \<comment> \<open>the body of \<^verbatim>\<open>for epoch in range(epochs)\<close>, with the number of rounds still to run\<close>
  "epoch_loop A T train_loader val_loader 0 train_losses val_losses s =
     Inr ((train_losses, val_losses), s)"
| "epoch_loop A T train_loader val_loader (Suc n) train_losses val_losses s =
     (case run_pass A (train_batch T) train_loader (float_zero A) (train_mode T s) of
        (train_loss, s1) \<Rightarrow>
          (case truediv A train_loss (length train_loader) of
             Inl e \<Rightarrow> Inl e
           | Inr avg_train_loss \<Rightarrow>
               (case run_pass A (val_batch T) val_loader (float_zero A) (eval_mode T s1) of
                  (val_loss, s2) \<Rightarrow>
                    (case truediv A val_loss (length val_loader) of
                       Inl e \<Rightarrow> Inl e
                     | Inr avg_val_loss \<Rightarrow>
                         epoch_loop A T train_loader val_loader n
                           (train_losses @ [avg_train_loss]) (val_losses @ [avg_val_loss]) s2))))"

definition train_model ::
  "'f float_arith \<Rightarrow> ('s, 'b, 'f) trainer \<Rightarrow> 'b list \<Rightarrow> 'b list \<Rightarrow> int \<Rightarrow> 's
     \<Rightarrow> error + (('f list \<times> 'f list) \<times> 's)" where
  \<comment> \<open>\<^verbatim>\<open>range(epochs)\<close> is empty for \<^verbatim>\<open>epochs <= 0\<close>; the result is
      \<^verbatim>\<open>(train_losses, val_losses)\<close> and the state the run leaves behind\<close>
  "train_model A T train_loader val_loader epochs s =
     epoch_loop A T train_loader val_loader (nat epochs) [] [] s"

text \<open>
  What the specification speaks of: the losses of the batches of one pass, in order, their
  mean, and the rounds of a run, each with the losses of its two passes. \<open>float_mean\<close> is the
  mean as float arithmetic yields it: the losses added from left to right, starting from
  \<^verbatim>\<open>0.0\<close>, and the sum divided by their number. \<open>exact_mean\<close> is the arithmetic mean of
  the values.
\<close>

fun pass_losses :: "('b \<Rightarrow> 's \<Rightarrow> 'f \<times> 's) \<Rightarrow> 'b list \<Rightarrow> 's \<Rightarrow> 'f list \<times> 's" where
  "pass_losses step [] s = ([], s)"
| "pass_losses step (batch # batches) s =
     (case step batch s of
        (loss, s') \<Rightarrow>
          (case pass_losses step batches s' of (losses, s'') \<Rightarrow> (loss # losses, s'')))"

definition float_mean :: "'f float_arith \<Rightarrow> 'f list \<Rightarrow> 'f" where
  "float_mean A xs = float_div A (foldl (float_add A) (float_zero A) xs) (length xs)"

definition exact_mean :: "rat list \<Rightarrow> rat" where
  "exact_mean xs = sum_list xs / of_nat (length xs)"

fun rounds ::
  "('s, 'b, 'f) trainer \<Rightarrow> 'b list \<Rightarrow> 'b list \<Rightarrow> nat \<Rightarrow> 's \<Rightarrow> ('f list \<times> 'f list) list \<times> 's" where
  "rounds T train_loader val_loader 0 s = ([], s)"
| "rounds T train_loader val_loader (Suc n) s =
     (case pass_losses (train_batch T) train_loader (train_mode T s) of
        (tls, s1) \<Rightarrow>
          (case pass_losses (val_batch T) val_loader (eval_mode T s1) of
             (vls, s2) \<Rightarrow>
               (case rounds T train_loader val_loader n s2 of
                  (rs, s') \<Rightarrow> ((tls, vls) # rs, s'))))"

definition toy_trainer :: "(nat, double, double) trainer" where
  \<comment> \<open>a trainer to run the loop on: the state counts the optimizer steps, a batch is a
      double, the training loss of a batch is halved with every step taken, and the
      validation loss of a batch grows by the number of steps\<close>
  "toy_trainer =
     \<lparr> train_mode = (\<lambda>s. s), eval_mode = (\<lambda>s. s),
       train_batch = (\<lambda>b s. (double_div_nat b (2 ^ s), Suc s)),
       val_batch = (\<lambda>b s. (double_add b (round_double (of_nat s)), s)) \<rparr>"

definition echo_trainer :: "(unit, double, double) trainer" where
  \<comment> \<open>a trainer without parameters: the loss of a batch is the batch\<close>
  "echo_trainer =
     \<lparr> train_mode = (\<lambda>s. s), eval_mode = (\<lambda>s. s),
       train_batch = (\<lambda>b s. (b, s)), val_batch = (\<lambda>b s. (b, s)) \<rparr>"

section \<open>Inference\<close>

text \<open>
  The forward pass in evaluation mode is a parameter \<open>model\<close>, from a batch of encoded
  sequences to one row of logits per sample. Logits are floats; only their order matters
  here, so they are values of any linear order.
\<close>

fun argmax_scan :: "'a::linorder \<Rightarrow> nat \<Rightarrow> nat \<Rightarrow> 'a list \<Rightarrow> nat" where
  \<comment> \<open>the best value so far, its index, the index of the next entry, the entries left\<close>
  "argmax_scan best best_i i [] = best_i"
| "argmax_scan best best_i i (x # xs) =
     (if best < x then argmax_scan x i (Suc i) xs else argmax_scan best best_i (Suc i) xs)"

definition argmax :: "'a::linorder list \<Rightarrow> error + nat" where
  \<comment> \<open>Modelled from the spec: \<^verbatim>\<open>torch.argmax\<close> along one row is a PyTorch primitive and not
      part of the notebook; it is the index of the maximum logit, the lowest such index on
      a tie, computed by a scan that only moves on a strictly larger entry. An empty row
      is refused.\<close>
  "argmax row = (case row of [] \<Rightarrow> Inl IndexError | x # xs \<Rightarrow> Inr (argmax_scan x 0 1 xs))"

fun argmax_dim1 :: "'a::linorder list list \<Rightarrow> error + nat list" where
  \<comment> \<open>\<^verbatim>\<open>torch.argmax(outputs, dim=1)\<close>: one index per row\<close>
  "argmax_dim1 [] = Inr []"
| "argmax_dim1 (row # rows) =
     (case argmax row of
        Inl e \<Rightarrow> Inl e
      | Inr p \<Rightarrow> (case argmax_dim1 rows of Inl e \<Rightarrow> Inl e | Inr ps \<Rightarrow> Inr (p # ps)))"

fun prediction_loop ::
  "(int list list \<Rightarrow> 'a::linorder list list) \<Rightarrow> nat list \<Rightarrow> (int list list \<times> int list) list
     \<Rightarrow> error + nat list" where
  \<comment> \<open>\<^verbatim>\<open>for input_ids, _ in test_loader: ...; all_preds.extend(preds)\<close>\<close>
  "prediction_loop model all_preds [] = Inr all_preds"
| "prediction_loop model all_preds ((input_ids, _) # batches) =
     (case argmax_dim1 (model input_ids) of
        Inl e \<Rightarrow> Inl e
      | Inr preds \<Rightarrow> prediction_loop model (all_preds @ preds) batches)"

definition first_max :: "'a::linorder list \<Rightarrow> nat \<Rightarrow> bool" where
  \<comment> \<open>\<open>p\<close> is the index of the maximum of the row, the lowest one on a tie\<close>
  "first_max row p =
     (p < length row \<and> (\<forall>j\<in>{0..<length row}. row ! j \<le> row ! p) \<and>
      (\<forall>j\<in>{0..<p}. row ! j < row ! p))"

definition toy_model :: "int list list \<Rightarrow> int list list" where
  \<comment> \<open>a forward pass to run the loop on: the two logits of a sample are the first index
      of its sequence and the sum of the sequence\<close>
  "toy_model input_ids = map (\<lambda>s. [hd (s @ [0]), sum_list s]) input_ids"

section \<open>The examples of the docstrings\<close>

lemma simple_tokenizer_example: "simple_tokenizer ''Hello World!'' = [''hello'', ''world'']"
  by code_simp

lemma build_vocab_example:
  "build_vocab docstring_texts 1 =
     [(''<pad>'', 0), (''<unk>'', 1), (''hello'', 2), (''world'', 3), (''ai'', 4), (''is'', 5),
      (''amazing'', 6), (''for'', 7), (''the'', 8), (''future'', 9)]"
  by code_simp

lemma text_to_sequence_example: "text_to_sequence ''Hello Bob World'' example_vocab = Inr [2, 1, 3]"
  by code_simp

lemma pad_sequence_example: "pad_sequence [1, 2, 3] 5 = [1, 2, 3, 0, 0]"
  by code_simp

section \<open>Properties of the tokenizer and of dictionaries\<close>

lemma findall_word_chars:
  "t \<in> set (findall_word run cs) \<Longrightarrow> \<forall>c\<in>set run. is_word_char c \<Longrightarrow> \<forall>c\<in>set t. is_word_char c"
proof (induction cs arbitrary: run)
  case Nil
  then show ?case by (simp split: if_splits)
next
  case (Cons c cs)
  show ?case
  proof (cases "is_word_char c")
    case True
    with Cons.prems have "t \<in> set (findall_word (run @ [c]) cs)" and "\<forall>d\<in>set (run @ [c]). is_word_char d"
      by simp_all
    then show ?thesis by (rule Cons.IH)
  next
    case False
    with Cons.prems have "t = run \<or> t \<in> set (findall_word [] cs)"
      by (simp split: if_splits)
    then show ?thesis
    proof
      assume "t = run"
      with Cons.prems show ?thesis by simp
    next
      assume "t \<in> set (findall_word [] cs)"
      then show ?thesis by (rule Cons.IH) simp
    qed
  qed
qed

lemma simple_tokenizer_chars:
  "t \<in> set (simple_tokenizer text) \<Longrightarrow> \<forall>c\<in>set t. is_word_char c"
  unfolding simple_tokenizer_def by (rule findall_word_chars) auto

lemma less_sign_no_word_char: "\<not> is_word_char CHR ''<''"
  by (simp add: is_word_char_def)

lemma token_no_less_sign: "t \<in> set (simple_tokenizer text) \<Longrightarrow> CHR ''<'' \<notin> set t"
  using simple_tokenizer_chars less_sign_no_word_char by blast

lemma pad_no_token: "''<pad>'' \<notin> set (simple_tokenizer text)"
  by (auto dest: token_no_less_sign)

lemma unk_no_token: "''<unk>'' \<notin> set (simple_tokenizer text)"
  by (auto dest: token_no_less_sign)

lemma reserved_no_corpus_token:
  "''<pad>'' \<notin> set (corpus_tokens ts)" "''<unk>'' \<notin> set (corpus_tokens ts)"
  by (auto simp: corpus_tokens_def pad_no_token unk_no_token)

lemma map_of_graph:
  "map_of (map (\<lambda>k. (k, f k)) ks) k = (if k \<in> set ks then Some (f k) else None)"
  by (induction ks) auto

lemma dict_set_fresh: "k \<notin> fst ` set d \<Longrightarrow> dict_set d k v = d @ [(k, v)]"
  by (induction d) force+

lemma dict_set_graph:
  "distinct ks \<Longrightarrow> k \<in> set ks \<Longrightarrow>
   dict_set (map (\<lambda>t. (t, f t)) ks) k v = map (\<lambda>t. (t, if t = k then v else f t)) ks"
  by (induction ks) auto

section \<open>The counting pass of the vocabulary builder\<close>

lemma set_first_seen [simp]: "set (first_seen xs) = set xs"
  by (induction xs) auto

lemma distinct_first_seen [simp]: "distinct (first_seen xs)"
  by (induction xs) (auto simp: distinct_removeAll)

lemma first_seen_snoc:
  "first_seen (xs @ [x]) = (if x \<in> set xs then first_seen xs else first_seen xs @ [x])"
  by (induction xs) auto

lemma counted_step:
  "dict_set (counted seen) token (dict_get (counted seen) token 0 + 1) = counted (seen @ [token])"
proof (cases "token \<in> set seen")
  case True
  then show ?thesis
    by (simp add: counted_def first_seen_snoc dict_get_def map_of_graph dict_set_graph)
next
  case False
  then have "token \<notin> fst ` set (counted seen)"
    by (simp add: counted_def image_image)
  then have "dict_set (counted seen) token (dict_get (counted seen) token 0 + 1) =
      counted seen @ [(token, dict_get (counted seen) token 0 + 1)]"
    by (rule dict_set_fresh)
  with False show ?thesis
    by (auto simp: counted_def first_seen_snoc dict_get_def map_of_graph)
qed

lemma count_tokens_counted: "count_tokens (counted seen) tokens = counted (seen @ tokens)"
proof (induction tokens arbitrary: seen)
  case Nil
  show ?case by simp
next
  case (Cons token tokens)
  show ?case using Cons.IH [of "seen @ [token]"] by (simp add: counted_step)
qed

lemma count_texts_counted:
  "count_texts (counted seen) ts = counted (seen @ corpus_tokens ts)"
proof (induction ts arbitrary: seen)
  case Nil
  show ?case by (simp add: corpus_tokens_def)
next
  case (Cons t ts)
  show ?case using Cons.IH [of "seen @ simple_tokenizer t"]
    by (simp add: count_tokens_counted corpus_tokens_def)
qed

lemma count_texts_start: "count_texts [] ts = counted (corpus_tokens ts)"
  using count_texts_counted [of "[]" ts] by (simp add: counted_def)

section \<open>The admission pass of the vocabulary builder\<close>

lemma number_from_append:
  "number_from n (xs @ ys) = number_from n xs @ number_from (n + length xs) ys"
  by (induction xs arbitrary: n) simp_all

lemma map_fst_number_from [simp]: "map fst (number_from n xs) = xs"
  by (induction xs arbitrary: n) simp_all

lemma length_number_from [simp]: "length (number_from n xs) = length xs"
  by (induction xs arbitrary: n) simp_all

lemma nth_number_from:
  "i < length xs \<Longrightarrow> number_from n xs ! i = (xs ! i, int (n + i))"
proof (induction xs arbitrary: n i)
  case Nil
  then show ?case by simp
next
  case (Cons x xs)
  then show ?case by (cases i) simp_all
qed

lemma map_snd_number_from: "map snd (number_from 0 xs) = map int [0..<length xs]"
  by (rule nth_equalityI) (simp_all add: nth_number_from)

lemma admit_tokens_shape:
  "distinct ks \<Longrightarrow> set ks \<inter> fst ` set v = {} \<Longrightarrow>
   admit_tokens min_freq v (map (\<lambda>t. (t, c t)) ks) =
     v @ number_from (length v) (filter (\<lambda>t. min_freq \<le> c t) ks)"
proof (induction ks arbitrary: v)
  case Nil
  show ?case by simp
next
  case (Cons k ks)
  from Cons.prems have fresh: "k \<notin> fst ` set v" and d: "distinct ks" and k: "k \<notin> set ks"
    and disj: "set ks \<inter> fst ` set v = {}"
    by auto
  show ?case
  proof (cases "min_freq \<le> c k")
    case True
    let ?v = "v @ [(k, int (length v))]"
    from fresh have set: "dict_set v k (int (length v)) = ?v"
      by (rule dict_set_fresh)
    from k disj have "set ks \<inter> fst ` set ?v = {}"
      by auto
    with d have "admit_tokens min_freq ?v (map (\<lambda>t. (t, c t)) ks) =
        ?v @ number_from (length ?v) (filter (\<lambda>t. min_freq \<le> c t) ks)"
      by (rule Cons.IH)
    with True fresh set show ?thesis
      by (simp add: dict_contains_def)
  next
    case False
    with Cons.IH [OF d disj] show ?thesis by simp
  qed
qed

lemma build_vocab_shape:
  "build_vocab ts min_freq = number_from 0 (''<pad>'' # ''<unk>'' # admitted ts min_freq)"
proof -
  have "set (first_seen (corpus_tokens ts)) \<inter> fst ` set [(''<pad>'', 0::int), (''<unk>'', 1)] = {}"
    using reserved_no_corpus_token [of ts] by simp
  with distinct_first_seen have
    "admit_tokens min_freq [(''<pad>'', 0), (''<unk>'', 1)]
       (map (\<lambda>t. (t, int (count_list (corpus_tokens ts) t))) (first_seen (corpus_tokens ts))) =
     [(''<pad>'', 0), (''<unk>'', 1)] @
       number_from (length [(''<pad>'', 0::int), (''<unk>'', 1)])
         (filter (\<lambda>t. min_freq \<le> int (count_list (corpus_tokens ts) t)) (first_seen (corpus_tokens ts)))"
    by (rule admit_tokens_shape)
  then show ?thesis
    by (simp add: build_vocab_def count_texts_start counted_def admitted_def occurrences_def
        numeral_2_eq_2)
qed

lemma admitted_set:
  "set (admitted ts min_freq) =
     {t. 1 \<le> occurrences ts t \<and> min_freq \<le> occurrences ts t}"
proof -
  have "1 \<le> occurrences ts t \<longleftrightarrow> t \<in> set (corpus_tokens ts)" for t
    using count_list_0_iff [of "corpus_tokens ts" t] by (auto simp: occurrences_def)
  then show ?thesis
    by (auto simp: admitted_def)
qed

lemma keys_build_vocab:
  "set (map fst (build_vocab ts min_freq)) =
     {''<pad>'', ''<unk>''} \<union> {t. 1 \<le> occurrences ts t \<and> min_freq \<le> occurrences ts t}"
  by (simp add: build_vocab_shape admitted_set)

lemma distinct_admitted: "distinct (admitted ts min_freq)"
  by (simp add: admitted_def)

lemma reserved_not_admitted:
  "''<pad>'' \<notin> set (admitted ts min_freq)" "''<unk>'' \<notin> set (admitted ts min_freq)"
  using reserved_no_corpus_token [of ts] by (simp_all add: admitted_def)

lemma indices_build_vocab:
  "map snd (build_vocab ts min_freq) = map int [0..<length (build_vocab ts min_freq)]"
  unfolding build_vocab_shape length_number_from by (rule map_snd_number_from)

section \<open>The vocabulary returned by the builder\<close>

lemma map_of_number_from_head:
  "map_of (number_from 0 (''<pad>'' # ''<unk>'' # xs)) ''<pad>'' = Some 0"
  "map_of (number_from 0 (''<pad>'' # ''<unk>'' # xs)) ''<unk>'' = Some 1"
  by (simp_all add: numeral_2_eq_2)

lemma distinct_keys_build_vocab: "distinct (map fst (build_vocab ts min_freq))"
  using reserved_not_admitted [of ts min_freq]
  by (simp add: build_vocab_shape distinct_admitted)

text \<open>
  Claim C2. Every vocabulary returned by \<open>build_vocab\<close>, for any collection of texts and
  any threshold, maps \<^verbatim>\<open><pad>\<close> to index 0 and \<^verbatim>\<open><unk>\<close> to index 1; no token and no
  index occurs twice, and the indices in use are exactly \<open>0, ..., size - 1\<close>. An empty
  collection yields the two reserved entries only.
\<close>
theorem build_vocab_reserved_and_contiguous:
  "dict_item (build_vocab ts min_freq) ''<pad>'' = Inr 0 \<and>
   dict_item (build_vocab ts min_freq) ''<unk>'' = Inr 1 \<and>
   distinct (map fst (build_vocab ts min_freq)) \<and>
   distinct (map snd (build_vocab ts min_freq)) \<and>
   set (map snd (build_vocab ts min_freq)) = {0..<int (length (build_vocab ts min_freq))} \<and>
   build_vocab [] min_freq = [(''<pad>'', 0), (''<unk>'', 1)]"
proof -
  have pad: "dict_item (build_vocab ts min_freq) ''<pad>'' = Inr 0"
    and unk: "dict_item (build_vocab ts min_freq) ''<unk>'' = Inr 1"
    by (simp_all add: dict_item_def build_vocab_shape map_of_number_from_head)
  have idx: "map snd (build_vocab ts min_freq) = map int [0..<length (build_vocab ts min_freq)]"
    by (rule indices_build_vocab)
  have d: "distinct (map snd (build_vocab ts min_freq))"
    unfolding idx by (simp add: distinct_map)
  have s: "set (map snd (build_vocab ts min_freq)) = {0..<int (length (build_vocab ts min_freq))}"
    unfolding idx by (simp add: image_int_atLeastLessThan)
  have e: "build_vocab [] min_freq = [(''<pad>'', 0), (''<unk>'', 1)]"
    by (simp add: build_vocab_def)
  from pad unk distinct_keys_build_vocab d s e show ?thesis by blast
qed

theorem build_vocab_reserved_and_contiguous_witness:
  "dict_item (build_vocab docstring_texts 1) ''<pad>'' = Inr 0 \<and>
   dict_item (build_vocab docstring_texts 1) ''<unk>'' = Inr 1 \<and>
   distinct (map fst (build_vocab docstring_texts 1)) \<and>
   distinct (map snd (build_vocab docstring_texts 1)) \<and>
   set (map snd (build_vocab docstring_texts 1)) =
     {0..<int (length (build_vocab docstring_texts 1))} \<and>
   build_vocab [] 1 = [(''<pad>'', 0), (''<unk>'', 1)]"
  by (rule build_vocab_reserved_and_contiguous)

text \<open>
  Claim C3, as amended. A token other than the two reserved ones is in the vocabulary
  returned by \<open>build_vocab\<close> if and only if it occurs at least once in the tokenized texts
  of the collection and its number of occurrences there is at least \<open>min_freq\<close>. The
  vocabulary is the two reserved tokens followed by the admitted tokens in the order in
  which they are first met, numbered consecutively from 0; it is a function of the
  collection and the threshold alone.
\<close>
theorem build_vocab_admits_frequent_tokens:
  assumes "token \<noteq> ''<pad>''" and "token \<noteq> ''<unk>''"
  shows "(dict_contains (build_vocab ts min_freq) token \<longleftrightarrow>
            1 \<le> occurrences ts token \<and> min_freq \<le> occurrences ts token) \<and>
         build_vocab ts min_freq = number_from 0 (''<pad>'' # ''<unk>'' # admitted ts min_freq)"
proof -
  have "set (map fst (build_vocab ts min_freq)) =
      {''<pad>'', ''<unk>''} \<union> {t. 1 \<le> occurrences ts t \<and> min_freq \<le> occurrences ts t}"
    by (rule keys_build_vocab)
  with assms have "dict_contains (build_vocab ts min_freq) token \<longleftrightarrow>
      1 \<le> occurrences ts token \<and> min_freq \<le> occurrences ts token"
    unfolding dict_contains_def by simp
  then show ?thesis using build_vocab_shape [of ts min_freq] by blast
qed

theorem build_vocab_admits_frequent_tokens_witness:
  "''ai'' \<noteq> ''<pad>'' \<and> ''ai'' \<noteq> ''<unk>'' \<and>
   (dict_contains (build_vocab docstring_texts 2) ''ai'' \<longleftrightarrow>
      1 \<le> occurrences docstring_texts ''ai'' \<and>
      2 \<le> occurrences docstring_texts ''ai'') \<and>
   build_vocab docstring_texts 2 =
     number_from 0
       (''<pad>'' # ''<unk>'' # admitted docstring_texts 2)"
proof -
  have p: "''ai'' \<noteq> ''<pad>''" and u: "''ai'' \<noteq> ''<unk>''"
    by simp_all
  from p u build_vocab_admits_frequent_tokens
    [OF p u, of docstring_texts 2]
  show ?thesis by blast
qed

text \<open>
  With the threshold 0 the token \<^verbatim>\<open>bob\<close>, which occurs 0 times in the collection, has
  a count of at least the threshold and is not in the vocabulary: the second loop only
  visits tokens that were counted.
\<close>
theorem build_vocab_zero_threshold_counterexample:
  "\<not> (dict_contains (build_vocab [''hello world''] 0) ''bob'' \<longleftrightarrow>
      0 \<le> occurrences [''hello world''] ''bob'')"
  by code_simp

text \<open>
  Claim C10. \<open>build_vocab\<close> is antitone in its threshold: for a fixed collection, raising
  the threshold can only remove tokens, and the two reserved tokens belong to the vocabulary
  at every threshold.
\<close>
theorem build_vocab_antitone:
  assumes "min_freq \<le> min_freq'"
  shows "set (map fst (build_vocab ts min_freq')) \<subseteq> set (map fst (build_vocab ts min_freq)) \<and>
         {''<pad>'', ''<unk>''} \<subseteq> set (map fst (build_vocab ts min_freq')) \<and>
         {''<pad>'', ''<unk>''} \<subseteq> set (map fst (build_vocab ts min_freq))"
  using assms unfolding keys_build_vocab by auto

theorem build_vocab_antitone_witness:
  "(1::int) \<le> 2 \<and>
   set (map fst (build_vocab docstring_texts 2))
     \<subseteq> set (map fst (build_vocab docstring_texts 1)) \<and>
   {''<pad>'', ''<unk>''}
     \<subseteq> set (map fst (build_vocab docstring_texts 2)) \<and>
   {''<pad>'', ''<unk>''}
     \<subseteq> set (map fst (build_vocab docstring_texts 1))"
  using build_vocab_antitone
    [of 1 2 docstring_texts]
  by simp

section \<open>The encoder\<close>

lemma sequence_of_known:
  "dict_item voc ''<unk>'' = Inr u \<Longrightarrow>
   sequence_of voc tokens = Inr (map (\<lambda>token. dict_get voc token u) tokens)"
  by (induction tokens) simp_all

lemma sequence_of_missing:
  "dict_item voc ''<unk>'' = Inl e \<Longrightarrow> tokens \<noteq> [] \<Longrightarrow> sequence_of voc tokens = Inl e"
  by (cases tokens) simp_all

lemma pad_sequence_nonneg:
  "0 \<le> n \<Longrightarrow>
   pad_sequence s n =
     (if n < int (length s) then take (nat n) s else s @ replicate (nat n - length s) 0)"
  by (auto simp: pad_sequence_def slice_to_def nat_diff_distrib)

lemma length_pad_sequence: "0 \<le> n \<Longrightarrow> int (length (pad_sequence s n)) = n"
  by (auto simp: pad_sequence_nonneg)

lemma encode_known:
  assumes "dict_item voc ''<unk>'' = Inr 1" and "0 \<le> n"
  shows "encode t voc n = Inr (encoded_sequence voc n (simple_tokenizer t))"
proof -
  have "text_to_sequence t voc =
      Inr (map (\<lambda>token. dict_get voc token 1) (simple_tokenizer t))"
    unfolding text_to_sequence_def using assms(1) by (rule sequence_of_known)
  with assms(2) show ?thesis
    by (simp add: encode_def encoded_sequence_def pad_sequence_nonneg dict_get_def)
qed

lemma length_encoded_sequence: "0 \<le> n \<Longrightarrow> int (length (encoded_sequence voc n tokens)) = n"
  by (auto simp: encoded_sequence_def Let_def)

text \<open>
  Claim C1, as amended. For every text, every vocabulary that maps \<^verbatim>\<open><unk>\<close> to index 1
  and every \<open>max_len\<close> that is not negative, \<open>text_to_sequence\<close> followed by
  \<open>pad_sequence\<close> returns the indices of the tokens of the text, 1 standing for a token the
  vocabulary lacks, cut to the first \<open>max_len\<close> entries if there are more and padded on
  the right with 0 otherwise; the result has exactly \<open>max_len\<close> entries. The text
  \<^verbatim>\<open>Hello Bob World\<close> with the vocabulary of the docstring yields \<open>[2, 1, 3, 0, 0]\<close>
  for \<open>max_len = 5\<close> and \<open>[2, 1]\<close> for \<open>max_len = 2\<close>.
\<close>
theorem encode_fixed_length:
  assumes "dict_item voc ''<unk>'' = Inr 1" and "0 \<le> n"
  shows "encode t voc n = Inr (encoded_sequence voc n (simple_tokenizer t)) \<and>
         int (length (encoded_sequence voc n (simple_tokenizer t))) = n \<and>
         encode ''Hello Bob World'' example_vocab 5 = Inr [2, 1, 3, 0, 0] \<and>
         encode ''Hello Bob World'' example_vocab 2 = Inr [2, 1]"
proof -
  have "encode ''Hello Bob World'' example_vocab 5 = Inr [2, 1, 3, 0, 0]"
    by code_simp
  moreover have "encode ''Hello Bob World'' example_vocab 2 = Inr [2, 1]"
    by code_simp
  ultimately show ?thesis
    using encode_known [OF assms] length_encoded_sequence [OF assms(2)] by blast
qed

theorem encode_fixed_length_witness:
  "dict_item example_vocab ''<unk>'' = Inr 1 \<and> (0::int) \<le> 5 \<and>
   encode ''Hello, world of AI!'' example_vocab 5 =
     Inr (encoded_sequence example_vocab 5 (simple_tokenizer ''Hello, world of AI!'')) \<and>
   int (length (encoded_sequence example_vocab 5 (simple_tokenizer ''Hello, world of AI!''))) = 5 \<and>
   encode ''Hello Bob World'' example_vocab 5 = Inr [2, 1, 3, 0, 0] \<and>
   encode ''Hello Bob World'' example_vocab 2 = Inr [2, 1]"
proof -
  have u: "dict_item example_vocab ''<unk>'' = Inr 1"
    by (simp add: dict_item_def example_vocab_def)
  have n: "(0::int) \<le> 5"
    by simp
  from u n encode_fixed_length [OF u n, of "''Hello, world of AI!''"] show ?thesis
    by blast
qed

text \<open>
  For \<open>max_len = -1\<close> the slice \<^verbatim>\<open>sequence[:-1]\<close> drops the last entry only, so the result
  has two entries; with a vocabulary that has no \<^verbatim>\<open><unk>\<close> entry the lookup of the default
  raises KeyError, also for a token the vocabulary knows.
\<close>
theorem encode_negative_max_len_counterexample:
  "encode ''Hello Bob World'' example_vocab (- 1) = Inr [2, 1] \<and>
   encode ''hello'' [(''hello'', 2)] 5 = Inl KeyError"
  by code_simp

section \<open>The dataset adapter\<close>

lemma index_in_range: "0 \<le> i \<Longrightarrow> i < int (length xs) \<Longrightarrow> index xs i = Inr (xs ! nat i)"
  by (simp add: index_def)

lemma index_wraps:
  "- int (length xs) \<le> i \<Longrightarrow> i < 0 \<Longrightarrow> index xs i = index xs (i + int (length xs))"
  by (simp add: index_def add.commute)

lemma index_out_of_range:
  "i < - int (length xs) \<or> int (length xs) \<le> i \<Longrightarrow> index xs i = Inl IndexError"
  by (auto simp: index_def)

lemma getitem_steps:
  assumes "length (labels ds) = length (texts ds)"
    and "0 \<le> idx" and "idx < int (length (texts ds))"
    and "text_to_sequence (texts ds ! nat idx) (vocab ds) = Inr s"
  shows "getitem ds idx =
     (case tensor_long (pad_sequence s (max_len ds)) of
        Inl e \<Rightarrow> Inl e
      | Inr input_ids \<Rightarrow>
          (case scalar_long (labels ds ! nat idx) of
             Inl e \<Rightarrow> Inl e
           | Inr label \<Rightarrow> Inr (input_ids, label)))"
  using assms by (simp add: getitem_def index_in_range)

lemma getitem_wraps:
  assumes "length (labels ds) = length (texts ds)"
    and "- int (length (texts ds)) \<le> idx" and "idx < 0"
  shows "getitem ds idx = getitem ds (idx + int (length (texts ds)))"
proof -
  from assms(2,3) have t: "index (texts ds) idx = index (texts ds) (idx + int (length (texts ds)))"
    by (rule index_wraps)
  from assms have l: "index (labels ds) idx = index (labels ds) (idx + int (length (texts ds)))"
    using index_wraps [of "labels ds" idx] by simp
  show ?thesis
    by (simp only: getitem_def t l)
qed

lemma getitem_out_of_range:
  "idx < - int (length (texts ds)) \<or> int (length (texts ds)) \<le> idx \<Longrightarrow>
   getitem ds idx = Inl IndexError"
  by (simp add: getitem_def index_out_of_range)

lemma is_int64_small: "is_int64 0" "is_int64 1"
  by (simp_all add: is_int64_def)

lemma encoded_sequence_int64:
  assumes "list_all is_int64 (map snd voc)"
  shows "list_all is_int64 (encoded_sequence voc n tokens)"
proof -
  have id: "is_int64 (case map_of voc token of None \<Rightarrow> 1 | Some i \<Rightarrow> i)" for token
  proof (cases "map_of voc token")
    case None
    then show ?thesis by (simp add: is_int64_small)
  next
    case (Some i)
    then have "(token, i) \<in> set voc"
      by (rule map_of_SomeD)
    then have "i \<in> set (map snd voc)"
      by force
    with assms Some show ?thesis
      by (auto simp: list_all_iff)
  qed
  have "is_int64 x" if "x \<in> set (encoded_sequence voc n tokens)" for x
  proof -
    from that have "x \<in> (\<lambda>token. case map_of voc token of None \<Rightarrow> 1 | Some i \<Rightarrow> i) ` set tokens \<or> x = 0"
      by (auto simp: encoded_sequence_def Let_def split: if_splits dest: in_set_takeD)
    with id show ?thesis
      by (auto simp: is_int64_small)
  qed
  then show ?thesis
    by (simp add: list_all_iff)
qed

text \<open>
  Claim C7, as amended. For a dataset whose texts and labels have the same length, whose
  vocabulary maps \<^verbatim>\<open><unk>\<close> to index 1, whose \<open>max_len\<close> is not negative and whose labels
  and vocabulary indices fit in 64-bit signed integers: \<^verbatim>\<open>__len__\<close> returns the number of
  texts; at every index in \<open>[0, size)\<close>, \<^verbatim>\<open>__getitem__\<close> returns the encoded sequence of
  the text at that index, which has \<open>max_len\<close> entries, and the label at that index,
  unchanged; at an index in \<open>[-size, 0)\<close> it returns the sample at \<open>idx + size\<close>; at every
  index outside \<open>[-size, size)\<close> it fails with IndexError.
\<close>
theorem getitem_by_index:
  assumes "length (labels ds) = length (texts ds)"
    and "dict_item (vocab ds) ''<unk>'' = Inr 1"
    and "0 \<le> max_len ds"
    and "list_all is_int64 (labels ds)"
    and "list_all is_int64 (map snd (vocab ds))"
  shows "len_TweetDataset ds = int (length (texts ds)) \<and>
         (0 \<le> idx \<and> idx < len_TweetDataset ds \<longrightarrow>
            getitem ds idx =
              Inr (encoded_sequence (vocab ds) (max_len ds) (simple_tokenizer (texts ds ! nat idx)),
                   labels ds ! nat idx) \<and>
            int (length (encoded_sequence (vocab ds) (max_len ds)
                   (simple_tokenizer (texts ds ! nat idx)))) = max_len ds) \<and>
         (- len_TweetDataset ds \<le> idx \<and> idx < 0 \<longrightarrow>
            getitem ds idx = getitem ds (idx + len_TweetDataset ds)) \<and>
         (idx < - len_TweetDataset ds \<or> len_TweetDataset ds \<le> idx \<longrightarrow>
            getitem ds idx = Inl IndexError)"
proof -
  let ?seq = "encoded_sequence (vocab ds) (max_len ds) (simple_tokenizer (texts ds ! nat idx))"
  have a: "getitem ds idx = Inr (?seq, labels ds ! nat idx) \<and> int (length ?seq) = max_len ds"
    if i: "0 \<le> idx" "idx < int (length (texts ds))"
  proof -
    have "encode (texts ds ! nat idx) (vocab ds) (max_len ds) = Inr ?seq"
      using assms(2,3) by (rule encode_known)
    then obtain s where s: "text_to_sequence (texts ds ! nat idx) (vocab ds) = Inr s"
      and p: "pad_sequence s (max_len ds) = ?seq"
      by (auto simp: encode_def split: sum.splits)
    from assms(5) have t: "tensor_long ?seq = Inr ?seq"
      by (simp add: tensor_long_def encoded_sequence_int64)
    from assms(1,4) i have "is_int64 (labels ds ! nat idx)"
      by (simp add: list_all_length)
    then have l: "scalar_long (labels ds ! nat idx) = Inr (labels ds ! nat idx)"
      by (simp add: scalar_long_def)
    from getitem_steps [OF assms(1) i s] have "getitem ds idx = Inr (?seq, labels ds ! nat idx)"
      by (simp add: p t l)
    with length_encoded_sequence [OF assms(3)] show ?thesis
      by simp
  qed
  have b: "getitem ds idx = getitem ds (idx + int (length (texts ds)))"
    if "- int (length (texts ds)) \<le> idx" and "idx < 0"
    using assms(1) that by (rule getitem_wraps)
  have c: "getitem ds idx = Inl IndexError"
    if "idx < - int (length (texts ds)) \<or> int (length (texts ds)) \<le> idx"
    using that by (rule getitem_out_of_range)
  from a b c show ?thesis
    unfolding len_TweetDataset_def by blast
qed

theorem getitem_by_index_witness:
  "length (labels example_dataset) = length (texts example_dataset) \<and>
   dict_item (vocab example_dataset) ''<unk>'' = Inr 1 \<and> 0 \<le> max_len example_dataset \<and>
   list_all is_int64 (labels example_dataset) \<and>
   list_all is_int64 (map snd (vocab example_dataset)) \<and>
   len_TweetDataset example_dataset = 2 \<and>
   getitem example_dataset 1 =
     Inr (encoded_sequence (vocab example_dataset) (max_len example_dataset)
            (simple_tokenizer (texts example_dataset ! nat 1)),
          labels example_dataset ! nat 1) \<and>
   getitem example_dataset 1 = Inr ([3, 0, 0, 0], 0) \<and>
   getitem example_dataset (- 1) = getitem example_dataset (- 1 + len_TweetDataset example_dataset) \<and>
   getitem example_dataset 2 = Inl IndexError"
proof -
  have l: "length (labels example_dataset) = length (texts example_dataset)"
    by (simp add: example_dataset_def)
  have u: "dict_item (vocab example_dataset) ''<unk>'' = Inr 1"
    by (simp add: example_dataset_def example_vocab_def dict_item_def)
  have m: "0 \<le> max_len example_dataset"
    by (simp add: example_dataset_def)
  have a: "list_all is_int64 (labels example_dataset)"
    by (simp add: example_dataset_def is_int64_def)
  have v: "list_all is_int64 (map snd (vocab example_dataset))"
    by (simp add: example_dataset_def example_vocab_def is_int64_def)
  have n: "len_TweetDataset example_dataset = 2"
    by (simp add: len_TweetDataset_def example_dataset_def)
  have g: "getitem example_dataset 1 = Inr ([3, 0, 0, 0], 0)"
    by code_simp
  from getitem_by_index [OF l u m a v, of 1] getitem_by_index [OF l u m a v, of "- 1"]
    getitem_by_index [OF l u m a v, of 2] l u m a v n g
  show ?thesis by simp
qed

text \<open>
  The index \<open>-1\<close> lies outside \<open>[0, size)\<close> and yields the last sample; with
  \<open>max_len = -1\<close> the sequence returned at index 0 has two entries; with a vocabulary that
  has no \<^verbatim>\<open><unk>\<close> entry the retrieval at index 0 raises KeyError; with a label or a
  vocabulary index of \<open>2 ^ 63\<close> the conversion to a tensor raises RuntimeError.
\<close>
theorem getitem_negative_index_counterexample:
  "getitem example_dataset (- 1) = Inr ([3, 0, 0, 0], 0) \<and>
   getitem (example_dataset\<lparr>max_len := - 1\<rparr>) 0 = Inr ([2, 1], 1) \<and>
   getitem (example_dataset\<lparr>vocab := [(''hello'', 2)]\<rparr>) 0 = Inl KeyError \<and>
   getitem (example_dataset\<lparr>labels := [2 ^ 63, 0]\<rparr>) 0 = Inl RuntimeError \<and>
   getitem (example_dataset\<lparr>vocab := [(''<unk>'', 1), (''hello'', 2 ^ 63)]\<rparr>) 0 =
     Inl RuntimeError"
  by code_simp

section \<open>Indices stay below the size of the vocabulary\<close>

lemma build_vocab_values:
  assumes "(k, v) \<in> set (build_vocab ts min_freq)"
  shows "0 \<le> v \<and> v < int (length (build_vocab ts min_freq))"
proof -
  from assms have "v \<in> set (map snd (build_vocab ts min_freq))"
    by force
  then have "v \<in> int ` {0..<length (build_vocab ts min_freq)}"
    unfolding indices_build_vocab by simp
  then show ?thesis by auto
qed

lemma length_build_vocab: "2 \<le> length (build_vocab ts min_freq)"
  by (simp add: build_vocab_shape)

lemma dict_get_build_vocab:
  "0 \<le> dict_get (build_vocab ts min_freq) token 1 \<and>
   dict_get (build_vocab ts min_freq) token 1 < int (length (build_vocab ts min_freq))"
proof (cases "map_of (build_vocab ts min_freq) token")
  case None
  with length_build_vocab [of ts min_freq] show ?thesis
    by (simp add: dict_get_def)
next
  case (Some v)
  then have "(token, v) \<in> set (build_vocab ts min_freq)"
    by (rule map_of_SomeD)
  with Some build_vocab_values show ?thesis
    by (simp add: dict_get_def)
qed

lemma set_pad_sequence: "set (pad_sequence s n) \<subseteq> set s \<union> {0}"
  by (auto simp: pad_sequence_def slice_to_def dest: in_set_takeD)

lemma text_to_sequence_build_vocab:
  "text_to_sequence t (build_vocab ts min_freq) =
     Inr (map (\<lambda>token. dict_get (build_vocab ts min_freq) token 1) (simple_tokenizer t))"
proof -
  have "dict_item (build_vocab ts min_freq) ''<unk>'' = Inr 1"
    by (simp add: dict_item_def build_vocab_shape map_of_number_from_head)
  then show ?thesis
    unfolding text_to_sequence_def by (rule sequence_of_known)
qed

lemma padded_in_range:
  assumes "text_to_sequence t (build_vocab ts min_freq) = Inr s"
    and "x \<in> set (pad_sequence s n)"
  shows "0 \<le> x \<and> x < int (length (build_vocab ts min_freq))"
proof -
  from assms(1) have s: "s = map (\<lambda>token. dict_get (build_vocab ts min_freq) token 1) (simple_tokenizer t)"
    by (simp add: text_to_sequence_build_vocab)
  from assms(2) set_pad_sequence have "x \<in> set s \<or> x = 0"
    by blast
  then show ?thesis
  proof
    assume "x \<in> set s"
    with s dict_get_build_vocab show ?thesis by auto
  next
    assume "x = 0"
    moreover have "0 < int (length (build_vocab ts min_freq))"
      using length_build_vocab [of ts min_freq] by linarith
    ultimately show ?thesis by simp
  qed
qed

lemma tensor_long_keeps: "tensor_long xs = Inr ys \<Longrightarrow> ys = xs"
  by (simp add: tensor_long_def split: if_splits)

text \<open>
  Claim C9. When the vocabulary of a dataset was produced by \<open>build_vocab\<close>, then at every
  valid index, whatever the text and whatever \<open>max_len\<close>, the encoding of the text succeeds
  and every entry of the padded sequence lies in \<open>[0, len(vocab))\<close>; so does every entry of
  every sequence that \<^verbatim>\<open>__getitem__\<close> returns, and \<^verbatim>\<open>__getitem__\<close> returns that padded
  sequence whenever the label and the size of the vocabulary fit in 64 bits. An embedding
  table of \<open>len(vocab)\<close> rows is never read out of range.
\<close>
theorem encoded_indices_below_vocab_size:
  assumes "vocab ds = build_vocab corpus min_freq"
    and "length (labels ds) = length (texts ds)"
    and "0 \<le> idx" and "idx < len_TweetDataset ds"
  shows "(\<exists>s. text_to_sequence (texts ds ! nat idx) (vocab ds) = Inr s \<and>
              (\<forall>x\<in>set (pad_sequence s (max_len ds)). 0 \<le> x \<and> x < int (length (vocab ds))) \<and>
              (is_int64 (labels ds ! nat idx) \<and> int (length (vocab ds)) \<le> 2 ^ 63 \<longrightarrow>
                 getitem ds idx = Inr (pad_sequence s (max_len ds), labels ds ! nat idx))) \<and>
         (\<forall>seq label. getitem ds idx = Inr (seq, label) \<longrightarrow>
            (\<forall>x\<in>set seq. 0 \<le> x \<and> x < int (length (vocab ds))))"
proof -
  let ?s = "map (\<lambda>token. dict_get (vocab ds) token 1) (simple_tokenizer (texts ds ! nat idx))"
  let ?p = "pad_sequence ?s (max_len ds)"
  have s: "text_to_sequence (texts ds ! nat idx) (vocab ds) = Inr ?s"
    unfolding assms(1) by (rule text_to_sequence_build_vocab)
  have r: "\<forall>x\<in>set ?p. 0 \<le> x \<and> x < int (length (vocab ds))"
    using s unfolding assms(1) by (intro ballI) (rule padded_in_range)
  from assms(3,4) have i: "0 \<le> idx" "idx < int (length (texts ds))"
    by (simp_all add: len_TweetDataset_def)
  note g = getitem_steps [OF assms(2) i s]
  have ok: "getitem ds idx = Inr (?p, labels ds ! nat idx)"
    if "is_int64 (labels ds ! nat idx)" and "int (length (vocab ds)) \<le> 2 ^ 63"
  proof -
    from r that(2) have "list_all is_int64 ?p"
      unfolding list_all_iff is_int64_def by fastforce
    with that(1) g show ?thesis
      by (simp add: tensor_long_def scalar_long_def)
  qed
  have any: "\<forall>x\<in>set seq. 0 \<le> x \<and> x < int (length (vocab ds))"
    if "getitem ds idx = Inr (seq, label)" for seq label
  proof -
    from that g have "tensor_long ?p = Inr seq"
      by (auto split: sum.splits)
    then have "seq = ?p"
      by (rule tensor_long_keeps)
    with r show ?thesis by simp
  qed
  from s r ok any show ?thesis by blast
qed

theorem encoded_indices_below_vocab_size_witness:
  "vocab docstring_dataset = build_vocab docstring_texts 1 \<and>
   length (labels docstring_dataset) = length (texts docstring_dataset) \<and>
   (0::int) \<le> 0 \<and> 0 < len_TweetDataset docstring_dataset \<and>
   is_int64 (labels docstring_dataset ! nat 0) \<and>
   int (length (vocab docstring_dataset)) \<le> 2 ^ 63 \<and>
   (\<exists>s. text_to_sequence (texts docstring_dataset ! nat 0) (vocab docstring_dataset) = Inr s \<and>
        (\<forall>x\<in>set (pad_sequence s (max_len docstring_dataset)).
           0 \<le> x \<and> x < int (length (vocab docstring_dataset))) \<and>
        getitem docstring_dataset 0 =
          Inr (pad_sequence s (max_len docstring_dataset), labels docstring_dataset ! nat 0)) \<and>
   getitem docstring_dataset 0 = Inr ([4, 5, 8, 9, 1, 0], 1) \<and>
   length (vocab docstring_dataset) = 10"
proof -
  have v: "vocab docstring_dataset = build_vocab docstring_texts 1"
    and l: "length (labels docstring_dataset) = length (texts docstring_dataset)"
    and i: "(0::int) \<le> 0" and n: "0 < len_TweetDataset docstring_dataset"
    by (simp_all add: docstring_dataset_def len_TweetDataset_def)
  have a: "is_int64 (labels docstring_dataset ! nat 0)"
    by (simp add: docstring_dataset_def is_int64_def)
  have s: "length (vocab docstring_dataset) = 10"
    by code_simp
  then have b: "int (length (vocab docstring_dataset)) \<le> 2 ^ 63"
    by simp
  have g: "getitem docstring_dataset 0 = Inr ([4, 5, 8, 9, 1, 0], 1)"
    by code_simp
  from v l i n a b g s encoded_indices_below_vocab_size [OF v l i n] show ?thesis
    by blast
qed

section \<open>The training loop\<close>

lemma run_pass_fold:
  "run_pass A step batches acc s =
     (foldl (float_add A) acc (fst (pass_losses step batches s)),
      snd (pass_losses step batches s))"
proof (induction batches arbitrary: acc s)
  case Nil
  show ?case by simp
next
  case (Cons b batches)
  show ?case
    by (simp add: Cons.IH case_prod_unfold)
qed

lemma length_pass_losses: "length (fst (pass_losses step batches s)) = length batches"
  by (induction batches arbitrary: s) (simp_all add: case_prod_unfold)

lemma run_pass_mean:
  "batches \<noteq> [] \<Longrightarrow>
   truediv A (fst (run_pass A step batches (float_zero A) s)) (length batches) =
     Inr (float_mean A (fst (pass_losses step batches s)))"
  by (simp add: run_pass_fold truediv_def float_mean_def length_pass_losses)

lemma run_pass_state: "snd (run_pass A step batches acc s) = snd (pass_losses step batches s)"
  by (simp add: run_pass_fold)

lemma epoch_loop_round:
  assumes "tr \<noteq> []" and "va \<noteq> []"
  shows "epoch_loop A T tr va (Suc n) H1 H2 s =
     epoch_loop A T tr va n
       (H1 @ [float_mean A (fst (pass_losses (train_batch T) tr (train_mode T s)))])
       (H2 @ [float_mean A (fst (pass_losses (val_batch T) va
                (eval_mode T (snd (pass_losses (train_batch T) tr (train_mode T s))))))])
       (snd (pass_losses (val_batch T) va
          (eval_mode T (snd (pass_losses (train_batch T) tr (train_mode T s))))))"
  using run_pass_mean [OF assms(1), of A "train_batch T" "train_mode T s"]
    run_pass_mean [OF assms(2), of A "val_batch T"
      "eval_mode T (snd (pass_losses (train_batch T) tr (train_mode T s)))"]
  by (simp add: run_pass_state case_prod_unfold)

lemma epoch_loop_appends:
  assumes "tr \<noteq> []" and "va \<noteq> []"
  shows "epoch_loop A T tr va n H1 H2 s =
     Inr ((H1 @ map (\<lambda>r. float_mean A (fst r)) (fst (rounds T tr va n s)),
           H2 @ map (\<lambda>r. float_mean A (snd r)) (fst (rounds T tr va n s))),
          snd (rounds T tr va n s))"
proof (induction n arbitrary: H1 H2 s)
  case 0
  show ?case by simp
next
  case (Suc n)
  show ?case
    unfolding epoch_loop_round [OF assms] Suc.IH
    by (simp add: case_prod_unfold)
qed

lemma length_rounds: "length (fst (rounds T tr va n s)) = n"
  by (induction n arbitrary: s) (simp_all add: case_prod_unfold)

lemma rounds_cover_sources:
  "r \<in> set (fst (rounds T tr va n s)) \<Longrightarrow> length (fst r) = length tr \<and> length (snd r) = length va"
proof (induction n arbitrary: s)
  case 0
  then show ?case by simp
next
  case (Suc n)
  let ?s1 = "snd (pass_losses (train_batch T) tr (train_mode T s))"
  let ?s2 = "snd (pass_losses (val_batch T) va (eval_mode T ?s1))"
  from Suc.prems have
    "r = (fst (pass_losses (train_batch T) tr (train_mode T s)),
          fst (pass_losses (val_batch T) va (eval_mode T ?s1))) \<or>
     r \<in> set (fst (rounds T tr va n ?s2))"
    by (simp add: case_prod_unfold)
  then show ?case
  proof
    assume "r = (fst (pass_losses (train_batch T) tr (train_mode T s)),
          fst (pass_losses (val_batch T) va (eval_mode T ?s1)))"
    then show ?thesis by (simp add: length_pass_losses)
  next
    assume "r \<in> set (fst (rounds T tr va n ?s2))"
    then show ?thesis by (rule Suc.IH)
  qed
qed

lemma epoch_loop_empty_source:
  "tr = [] \<or> va = [] \<Longrightarrow> epoch_loop A T tr va (Suc n) H1 H2 s = Inl ZeroDivisionError"
  by (auto simp: truediv_def split: prod.split sum.split)

text \<open>
  Claim C4, as amended. For two batch sources that are not empty and a number of epochs
  \<open>epochs \<ge> 0\<close>, \<open>train_model\<close> runs \<open>epochs\<close> rounds and returns the two loss histories,
  each with \<open>epochs\<close> entries: the entry of a round is the mean of the losses of the
  batches of that round, one loss for each batch of the source, as float arithmetic yields
  it (the losses added from left to right, starting from \<^verbatim>\<open>0.0\<close>, and the sum divided by
  the number of batches). One round appends exactly one value to each of the two
  histories.
\<close>
theorem train_model_histories:
  assumes "train_loader \<noteq> []" and "val_loader \<noteq> []" and "0 \<le> epochs"
  shows "train_model A T train_loader val_loader epochs s =
           Inr ((map (\<lambda>r. float_mean A (fst r))
                   (fst (rounds T train_loader val_loader (nat epochs) s)),
                 map (\<lambda>r. float_mean A (snd r))
                   (fst (rounds T train_loader val_loader (nat epochs) s))),
                snd (rounds T train_loader val_loader (nat epochs) s)) \<and>
         int (length (fst (rounds T train_loader val_loader (nat epochs) s))) = epochs \<and>
         (\<forall>r\<in>set (fst (rounds T train_loader val_loader (nat epochs) s)).
            length (fst r) = length train_loader \<and> length (snd r) = length val_loader) \<and>
         epoch_loop A T train_loader val_loader (Suc n) train_losses val_losses s =
           epoch_loop A T train_loader val_loader n
             (train_losses @
                [float_mean A (fst (pass_losses (train_batch T) train_loader (train_mode T s)))])
             (val_losses @
                [float_mean A (fst (pass_losses (val_batch T) val_loader
                   (eval_mode T (snd (pass_losses (train_batch T) train_loader (train_mode T s))))))])
             (snd (pass_losses (val_batch T) val_loader
                (eval_mode T (snd (pass_losses (train_batch T) train_loader (train_mode T s))))))"
proof -
  have a: "train_model A T train_loader val_loader epochs s =
           Inr ((map (\<lambda>r. float_mean A (fst r))
                   (fst (rounds T train_loader val_loader (nat epochs) s)),
                 map (\<lambda>r. float_mean A (snd r))
                   (fst (rounds T train_loader val_loader (nat epochs) s))),
                snd (rounds T train_loader val_loader (nat epochs) s))"
    unfolding train_model_def
    using epoch_loop_appends [OF assms(1,2), of A T "nat epochs" "[]" "[]" s]
    by simp
  have b: "int (length (fst (rounds T train_loader val_loader (nat epochs) s))) = epochs"
    using assms(3) by (simp add: length_rounds)
  have c: "\<forall>r\<in>set (fst (rounds T train_loader val_loader (nat epochs) s)).
            length (fst r) = length train_loader \<and> length (snd r) = length val_loader"
    by (intro ballI) (rule rounds_cover_sources)
  note d = epoch_loop_round [OF assms(1,2), of A T n train_losses val_losses s]
  from a b c d show ?thesis by blast
qed

theorem train_model_histories_witness:
  "[Fin 4, Fin 2] \<noteq> [] \<and> [Fin 1] \<noteq> [] \<and> (0::int) \<le> 2 \<and>
   train_model double_arith toy_trainer [Fin 4, Fin 2] [Fin 1] 2 0 =
     Inr ((map (\<lambda>r. float_mean double_arith (fst r))
             (fst (rounds toy_trainer [Fin 4, Fin 2] [Fin 1] (nat 2) 0)),
           map (\<lambda>r. float_mean double_arith (snd r))
             (fst (rounds toy_trainer [Fin 4, Fin 2] [Fin 1] (nat 2) 0))),
          snd (rounds toy_trainer [Fin 4, Fin 2] [Fin 1] (nat 2) 0)) \<and>
   int (length (fst (rounds toy_trainer [Fin 4, Fin 2] [Fin 1] (nat 2) 0))) = 2 \<and>
   train_model double_arith toy_trainer [Fin 4, Fin 2] [Fin 1] 2 0 =
     Inr (([Fin (5 / 2), Fin (5 / 8)], [Fin 3, Fin 5]), 4)"
proof -
  have a: "[Fin 4, Fin 2] \<noteq> []" and b: "[Fin 1] \<noteq> []" and c: "(0::int) \<le> 2"
    by simp_all
  have v: "train_model double_arith toy_trainer [Fin 4, Fin 2] [Fin 1] 2 0 =
      Inr (([Fin (5 / 2), Fin (5 / 8)], [Fin 3, Fin 5]), 4)"
    by code_simp
  from a b c v train_model_histories [OF a b c, of double_arith toy_trainer 0] show ?thesis
    by blast
qed

text \<open>
  In double arithmetic the sum of the losses \<open>2 ^ 53\<close> and \<open>1\<close> is rounded to \<open>2 ^ 53\<close>,
  so the entry of the round is \<open>2 ^ 52\<close>, and the arithmetic mean of the two losses is
  \<open>2 ^ 52 + 1 / 2\<close>.
\<close>
theorem train_model_rounded_mean_counterexample:
  "train_model double_arith echo_trainer [Fin 9007199254740992, Fin 1] [Fin 1] 1 () =
     Inr (([Fin 4503599627370496], [Fin 1]), ()) \<and>
   exact_mean [9007199254740992, 1] = 4503599627370496 + 1 / 2 \<and>
   exact_mean [9007199254740992, 1] \<noteq> 4503599627370496"
  by code_simp

text \<open>
  Claim C6, as amended. When a batch source is empty and at least one round runs,
  \<open>train_model\<close> fails with the ZeroDivisionError of the averaging step and returns no
  loss history; with \<open>epochs \<le> 0\<close> no round runs and it returns two empty histories,
  also for empty sources; with two sources that are not empty it never fails.
\<close>
theorem train_model_empty_source:
  "((train_loader = [] \<or> val_loader = []) \<and> 1 \<le> epochs \<longrightarrow>
      train_model A T train_loader val_loader epochs s = Inl ZeroDivisionError) \<and>
   (epochs \<le> 0 \<longrightarrow> train_model A T train_loader val_loader epochs s = Inr (([], []), s)) \<and>
   (train_loader \<noteq> [] \<and> val_loader \<noteq> [] \<longrightarrow>
      (\<exists>r. train_model A T train_loader val_loader epochs s = Inr r))"
proof -
  have a: "train_model A T train_loader val_loader epochs s = Inl ZeroDivisionError"
    if "train_loader = [] \<or> val_loader = []" and "1 \<le> epochs"
  proof -
    from that(2) obtain n where "nat epochs = Suc n"
      by (cases "nat epochs") auto
    with that(1) show ?thesis
      unfolding train_model_def by (simp only: epoch_loop_empty_source)
  qed
  have b: "train_model A T train_loader val_loader epochs s = Inr (([], []), s)" if "epochs \<le> 0"
    using that by (simp add: train_model_def)
  have c: "\<exists>r. train_model A T train_loader val_loader epochs s = Inr r"
    if "train_loader \<noteq> []" and "val_loader \<noteq> []"
    unfolding train_model_def
    using epoch_loop_appends [OF that, of A T "nat epochs" "[]" "[]" s] by blast
  from a b c show ?thesis by blast
qed

theorem train_model_empty_source_witness:
  "(([] :: double list) = [] \<or> [Fin 1] = []) \<and> (1::int) \<le> 1 \<and>
   train_model double_arith toy_trainer [] [Fin 1] 1 0 = Inl ZeroDivisionError \<and>
   (0::int) \<le> 0 \<and> train_model double_arith toy_trainer [] [] 0 0 = Inr (([], []), 0) \<and>
   [Fin 4, Fin 2] \<noteq> [] \<and> [Fin 1] \<noteq> [] \<and>
   (\<exists>r. train_model double_arith toy_trainer [Fin 4, Fin 2] [Fin 1] 2 0 = Inr r)"
  using train_model_empty_source [of "[]" "[Fin 1]" 1 double_arith toy_trainer 0]
    train_model_empty_source [of "[]" "[]" 0 double_arith toy_trainer 0]
    train_model_empty_source [of "[Fin 4, Fin 2]" "[Fin 1]" 2 double_arith toy_trainer 0]
  by simp

text \<open>
  With no round to run, empty sources are accepted and two empty histories come back;
  when a round runs, the failure is the ZeroDivisionError raised by the division itself,
  for an empty validation source after the training pass of that round.
\<close>
theorem train_model_no_data_counterexample:
  "train_model double_arith toy_trainer [] [] 0 0 = Inr (([], []), 0) \<and>
   train_model double_arith toy_trainer [] [Fin 1] 1 0 = Inl ZeroDivisionError \<and>
   train_model double_arith toy_trainer [Fin 4, Fin 2] [] 1 0 = Inl ZeroDivisionError"
  by code_simp

section \<open>The inference loop\<close>

lemma argmax_scan_first_max:
  assumes "best_i < length pre" and "pre ! best_i = best"
    and "\<forall>j < length pre. pre ! j \<le> best" and "\<forall>j < best_i. pre ! j < best"
  shows "first_max (pre @ xs) (argmax_scan best best_i (length pre) xs)"
  using assms
proof (induction xs arbitrary: pre best best_i)
  case Nil
  then show ?case by (simp add: first_max_def)
next
  case (Cons x xs)
  show ?case
  proof (cases "best < x")
    case True
    have "first_max ((pre @ [x]) @ xs) (argmax_scan x (length pre) (length (pre @ [x])) xs)"
    proof (rule Cons.IH)
      show "length pre < length (pre @ [x])" by simp
      show "(pre @ [x]) ! length pre = x" by simp
      show "\<forall>j < length (pre @ [x]). (pre @ [x]) ! j \<le> x"
        using Cons.prems(3) True by (auto simp: nth_append less_Suc_eq intro: order.trans less_imp_le)
      show "\<forall>j < length pre. (pre @ [x]) ! j < x"
        using Cons.prems(3) True by (auto simp: nth_append intro: le_less_trans)
    qed
    with True show ?thesis by simp
  next
    case False
    have "first_max ((pre @ [x]) @ xs) (argmax_scan best best_i (length (pre @ [x])) xs)"
    proof (rule Cons.IH)
      show "best_i < length (pre @ [x])" using Cons.prems(1) by simp
      show "(pre @ [x]) ! best_i = best" using Cons.prems(1,2) by (simp add: nth_append)
      show "\<forall>j < length (pre @ [x]). (pre @ [x]) ! j \<le> best"
        using Cons.prems(3) False by (auto simp: nth_append less_Suc_eq)
      show "\<forall>j < best_i. (pre @ [x]) ! j < best"
        using Cons.prems(1,4) by (auto simp: nth_append)
    qed
    with False show ?thesis by simp
  qed
qed

lemma argmax_first_max: "row \<noteq> [] \<Longrightarrow> \<exists>p. argmax row = Inr p \<and> first_max row p"
proof (cases row)
  case Nil
  moreover assume "row \<noteq> []"
  ultimately show ?thesis by simp
next
  case (Cons x xs)
  have "first_max ([x] @ xs) (argmax_scan x 0 (length [x]) xs)"
    by (rule argmax_scan_first_max) simp_all
  with Cons show ?thesis by (simp add: argmax_def)
qed

lemma first_max_two: "length row = 2 \<Longrightarrow> first_max row p \<Longrightarrow> p = (if row ! 0 < row ! 1 then 1 else 0)"
proof -
  assume l: "length row = 2" and f: "first_max row p"
  from f l have "p < 2" by (simp add: first_max_def)
  then have "p = 0 \<or> p = 1" by auto
  then show ?thesis
  proof
    assume "p = 0"
    with f l have "row ! 1 \<le> row ! 0" by (simp add: first_max_def)
    with \<open>p = 0\<close> show ?thesis by auto
  next
    assume "p = 1"
    with f have "row ! 0 < row ! 1" by (simp add: first_max_def)
    with \<open>p = 1\<close> show ?thesis by simp
  qed
qed

lemma argmax_dim1_rows:
  "\<forall>row\<in>set rows. length row = 2 \<Longrightarrow>
   \<exists>preds. argmax_dim1 rows = Inr preds \<and> list_all2 first_max rows preds"
proof (induction rows)
  case Nil
  show ?case by simp
next
  case (Cons row rows)
  then have "row \<noteq> []" by auto
  then obtain p where p: "argmax row = Inr p" "first_max row p"
    using argmax_first_max by blast
  from Cons obtain preds where ps: "argmax_dim1 rows = Inr preds" "list_all2 first_max rows preds"
    by auto
  from p ps show ?case by simp
qed

lemma prediction_loop_batches:
  assumes "\<forall>b\<in>set test_loader. \<forall>row\<in>set (model (fst b)). length row = 2"
  shows "\<exists>new. prediction_loop model all_preds test_loader = Inr (all_preds @ new) \<and>
           list_all2 first_max (concat (map (\<lambda>b. model (fst b)) test_loader)) new"
  using assms
proof (induction test_loader arbitrary: all_preds)
  case Nil
  show ?case by simp
next
  case (Cons b test_loader)
  obtain input_ids lbls where b: "b = (input_ids, lbls)"
    by (cases b)
  from Cons.prems b have "\<forall>row\<in>set (model input_ids). length row = 2"
    by simp
  then obtain preds where ps: "argmax_dim1 (model input_ids) = Inr preds"
    "list_all2 first_max (model input_ids) preds"
    using argmax_dim1_rows by blast
  from Cons.prems have "\<forall>b\<in>set test_loader. \<forall>row\<in>set (model (fst b)). length row = 2"
    by simp
  from Cons.IH [OF this, of "all_preds @ preds"] obtain new
    where n: "prediction_loop model (all_preds @ preds) test_loader = Inr ((all_preds @ preds) @ new)"
      "list_all2 first_max (concat (map (\<lambda>b. model (fst b)) test_loader)) new"
    by blast
  from ps n b have "prediction_loop model all_preds (b # test_loader) = Inr (all_preds @ (preds @ new))"
    by simp
  moreover from ps(2) n(2) b
  have "list_all2 first_max (concat (map (\<lambda>b. model (fst b)) (b # test_loader))) (preds @ new)"
    by (simp add: list_all2_appendI)
  ultimately show ?case by blast
qed

text \<open>
  Claim C5. When the forward pass returns one row of two logits for every sample of a
  batch, the inference loop produces for a batch of \<open>B\<close> samples exactly \<open>B\<close> labels;
  each label is the index of the maximum of its row, the lowest index on a tie, that is 1
  if the second logit is strictly larger than the first and 0 otherwise; every label is 0
  or 1, and the loop as a whole returns one label for every sample of the source, in order.
\<close>
theorem predictions_one_per_sample:
  assumes "\<forall>b\<in>set test_loader.
             length (model (fst b)) = length (fst b) \<and> (\<forall>row\<in>set (model (fst b)). length row = 2)"
  shows "(\<forall>b\<in>set test_loader.
            \<exists>preds. argmax_dim1 (model (fst b)) = Inr preds \<and>
                    length preds = length (fst b) \<and>
                    list_all2 first_max (model (fst b)) preds \<and>
                    preds = map (\<lambda>row. if row ! 0 < row ! 1 then 1 else 0) (model (fst b)) \<and>
                    set preds \<subseteq> {0, 1}) \<and>
         (\<exists>all_preds. prediction_loop model [] test_loader = Inr all_preds \<and>
            list_all2 first_max (concat (map (\<lambda>b. model (fst b)) test_loader)) all_preds \<and>
            length all_preds = sum_list (map (\<lambda>b. length (fst b)) test_loader))"
proof -
  have per_batch: "\<exists>preds. argmax_dim1 (model (fst b)) = Inr preds \<and>
                    length preds = length (fst b) \<and>
                    list_all2 first_max (model (fst b)) preds \<and>
                    preds = map (\<lambda>row. if row ! 0 < row ! 1 then 1 else 0) (model (fst b)) \<and>
                    set preds \<subseteq> {0, 1}"
    if "b \<in> set test_loader" for b
  proof -
    from assms that have len: "length (model (fst b)) = length (fst b)"
      and two: "\<forall>row\<in>set (model (fst b)). length row = 2"
      by auto
    from two obtain preds where ps: "argmax_dim1 (model (fst b)) = Inr preds"
      "list_all2 first_max (model (fst b)) preds"
      using argmax_dim1_rows by blast
    from ps(2) have l: "length preds = length (model (fst b))"
      by (simp add: list_all2_lengthD)
    have v: "preds ! i = (if model (fst b) ! i ! 0 < model (fst b) ! i ! 1 then 1 else 0)"
      if "i < length preds" for i
    proof (rule first_max_two)
      from that l two show "length (model (fst b) ! i) = 2" by simp
      from that l ps(2) show "first_max (model (fst b) ! i) (preds ! i)"
        by (simp add: list_all2_nthD)
    qed
    have m: "preds = map (\<lambda>row. if row ! 0 < row ! 1 then 1 else 0) (model (fst b))"
      by (rule nth_equalityI) (simp_all add: l v)
    have "set (map (\<lambda>row. if row ! 0 < row ! 1 then 1 else 0 :: nat) (model (fst b))) \<subseteq> {0, 1}"
      by auto
    with m have "set preds \<subseteq> {0, 1}"
      by simp
    with ps l len m show ?thesis by simp
  qed
  from assms have "\<forall>b\<in>set test_loader. \<forall>row\<in>set (model (fst b)). length row = 2"
    by simp
  from prediction_loop_batches [OF this, of "[]"] obtain all_preds
    where a: "prediction_loop model [] test_loader = Inr all_preds"
      "list_all2 first_max (concat (map (\<lambda>b. model (fst b)) test_loader)) all_preds"
    by auto
  from a(2) have "length all_preds = length (concat (map (\<lambda>b. model (fst b)) test_loader))"
    by (simp add: list_all2_lengthD)
  also have "\<dots> = sum_list (map (\<lambda>b. length (model (fst b))) test_loader)"
    by (simp add: length_concat comp_def)
  also have "\<dots> = sum_list (map (\<lambda>b. length (fst b)) test_loader)"
    using assms by (intro arg_cong [where f = sum_list] map_cong) simp_all
  finally have "length all_preds = sum_list (map (\<lambda>b. length (fst b)) test_loader)" .
  with a per_batch show ?thesis by blast
qed

theorem predictions_one_per_sample_witness:
  "toy_model [[2, 1, 3], [1, 0, 0]] = [[2, 6], [1, 1]] \<and> toy_model [[0, 0, 0]] = [[0, 0]] \<and>
   (\<exists>preds. argmax_dim1 (toy_model [[2, 1, 3], [1, 0, 0]]) = Inr preds \<and>
            length preds = length [[2, 1, 3], [1, 0, 0::int]] \<and> set preds \<subseteq> {0, 1}) \<and>
   prediction_loop toy_model [] [([[2, 1, 3], [1, 0, 0]], [0, 1]), ([[0, 0, 0]], [1])] = Inr [1, 0, 0]"
proof -
  have m: "toy_model [[2, 1, 3], [1, 0, 0]] = [[2, 6], [1, 1]]" "toy_model [[0, 0, 0]] = [[0, 0]]"
    by (simp_all add: toy_model_def)
  have h: "\<forall>b\<in>set [([[2, 1, 3], [1, 0, 0]], [0, 1]), ([[0, 0, 0]], [1::int])].
      length (toy_model (fst b)) = length (fst b) \<and> (\<forall>row\<in>set (toy_model (fst b)). length row = 2)"
    by (simp add: m)
  have v: "prediction_loop toy_model [] [([[2, 1, 3], [1, 0, 0]], [0, 1]), ([[0, 0, 0]], [1])] = Inr [1, 0, 0]"
    by (simp add: m argmax_def)
  from predictions_one_per_sample [OF h]
  have "\<exists>preds. argmax_dim1 (toy_model [[2, 1, 3], [1, 0, 0]]) = Inr preds \<and>
            length preds = length [[2, 1, 3], [1, 0, 0::int]] \<and> set preds \<subseteq> {0, 1}"
    by fastforce
  with m v show ?thesis by blast
qed

end
